theory Spec2Isabelle
  imports Complex_Main "HOL-Library.Word" "HOL-Library.Char_ord" "HOL-Library.List_Lexorder"
begin

unbundle bit_operations_syntax

section \<open>Meeting-Bridge: peer mesh, floor control, audio pipeline\<close>

text \<open>
  A shallow embedding of the TypeScript sources: the leader election of
  \<^verbatim>\<open>NetworkService\<close>, the store handlers of \<^verbatim>\<open>useAppStore\<close>
  (\<^verbatim>\<open>handleIncomingEvent\<close>, the peer-leave handler, the binary helpers) and the
  resampler and playback scheduler of \<^verbatim>\<open>AudioService\<close>.

  Conventions of the embedding.
  \<^item> A JavaScript \<^verbatim>\<open>number\<close> that holds a sample, a rate or a time is a \<^typ>\<open>real\<close>:
    finite values with exact arithmetic. IEEE rounding, infinities and NaN are outside
    the model.
  \<^item> A \<^verbatim>\<open>Float32Array\<close> that is only copied byte by byte (the wire encoding) is a
    view on an \<^verbatim>\<open>ArrayBuffer\<close>; its elements are their 32-bit patterns,
    \<^typ>\<open>32 word\<close>.
  \<^item> The fields of a payload have the types that \<^verbatim>\<open>types/schema.ts\<close> declares.
  \<^item> A thrown exception is a value \<open>Inl e\<close> of a sum type.
  \<^item> \<^verbatim>\<open>crypto.randomUUID()\<close> and \<^verbatim>\<open>Date.now()\<close> are arguments of the
    function that calls them.
\<close>

datatype error =
    UpsamplingNotSupported   \<comment> \<open>\<^verbatim>\<open>Error("Upsampling not supported in this utility")\<close>\<close>
  | RangeError
  | InvalidCharacterError
  | NotSupportedError
  | TransportFailure

subsection \<open>AudioService: resampling\<close>

text \<open>\<^verbatim>\<open>Math.round\<close>: the nearest integer, a tie going up.\<close>

definition Math_round :: "real \<Rightarrow> int" where
  "Math_round x = \<lfloor>x + 1 / 2\<rfloor>"

text \<open>
  \<^verbatim>\<open>buffer[index] || fallback\<close>: a read outside the array is \<^verbatim>\<open>undefined\<close>, and
  \<^verbatim>\<open>undefined\<close> and \<open>0\<close> are both falsy, so both give the fallback.
\<close>

definition sample_or :: "real list \<Rightarrow> int \<Rightarrow> real \<Rightarrow> real" where
  "sample_or buffer index fallback =
     (if 0 \<le> index \<and> nat index < length buffer \<and> buffer ! nat index \<noteq> 0
      then buffer ! nat index else fallback)"

text \<open>The body of the loop of \<^verbatim>\<open>downsampleBuffer\<close>: the value stored in \<^verbatim>\<open>result[i]\<close>.\<close>

definition interpolate :: "real list \<Rightarrow> real \<Rightarrow> nat \<Rightarrow> real" where
  "interpolate buffer ratio i =
     (let originalIndex = real i * ratio;
          indexFloor = \<lfloor>originalIndex\<rfloor>;
          indexCeil = \<lceil>originalIndex\<rceil>;
          weight = originalIndex - of_int indexFloor;
          val1 = sample_or buffer indexFloor 0;
          val2 = sample_or buffer indexCeil val1
      in val1 * (1 - weight) + val2 * weight)"

text \<open>
  \<^verbatim>\<open>downsampleBuffer(buffer, sourceRate, targetRate)\<close>. The two checks come first, as in
  the source; \<^verbatim>\<open>new Float32Array(newLength)\<close> throws a RangeError on a negative length.
  Past the two checks the model is the source for a positive target rate; with a target
  rate of zero or below, IEEE division gives an infinity or NaN where a real quotient is
  computed here.
\<close>

definition downsampleBuffer :: "real list \<Rightarrow> real \<Rightarrow> real \<Rightarrow> error + real list" where
  "downsampleBuffer buffer sourceRate targetRate =
     (if targetRate = sourceRate then Inr buffer
      else if targetRate > sourceRate then Inl UpsamplingNotSupported
      else
        let ratio = sourceRate / targetRate;
            newLength = Math_round (real (length buffer) / ratio)
        in if newLength < 0 then Inl RangeError
           else Inr (map (interpolate buffer ratio) [0..<nat newLength]))"

subsection \<open>AudioService: playback scheduling\<close>

record AudioService =
  inputContext :: bool      \<comment> \<open>the context exists (is not \<^verbatim>\<open>null\<close>)\<close>
  outputContext :: bool
  nextStartTime :: real
  jitterLatency :: real

definition AudioService_new :: AudioService where
  "AudioService_new =
     \<lparr>inputContext = False, outputContext = False, nextStartTime = 0, jitterLatency = 0.05\<rparr>"

definition ensureContexts :: "AudioService \<Rightarrow> AudioService" where
  "ensureContexts s =
     (let s1 = (if \<not> inputContext s then s\<lparr>inputContext := True\<rparr> else s)
      in if \<not> outputContext s1 then s1\<lparr>outputContext := True\<rparr> else s1)"

definition setJitterLatency :: "AudioService \<Rightarrow> real \<Rightarrow> AudioService" where
  "setJitterLatency s seconds = s\<lparr>jitterLatency := max 0 seconds\<rparr>"

text \<open>
  What \<^verbatim>\<open>playAudioQueue\<close> did: it returned early, or it passed the start time to
  \<^verbatim>\<open>source.start\<close> for a buffer of the given duration.
\<close>

datatype playback = NotStarted | Started (startedAt: real) (duration: real)

text \<open>
  \<^verbatim>\<open>playAudioQueue(audioData, sampleRate)\<close>. Only the length of \<^verbatim>\<open>audioData\<close> is
  used, so the type of its elements is left open. The Web Audio platform is a parameter:
  \<open>createBufferOk length sampleRate\<close> says whether the browser's
  \<^verbatim>\<open>createBuffer(1, length, sampleRate)\<close> accepts the arguments (it throws
  NotSupportedError otherwise), and \<open>currentTime\<close> is the reading of
  \<^verbatim>\<open>outputContext.currentTime\<close> in this call. \<^verbatim>\<open>source.start\<close> throws a RangeError
  on a negative time. The state is returned also when the call throws, with the
  assignments made before the exception.
\<close>

definition playAudioQueue ::
  "(nat \<Rightarrow> real \<Rightarrow> bool) \<Rightarrow> real \<Rightarrow> AudioService \<Rightarrow> 'a list \<Rightarrow> real
     \<Rightarrow> AudioService \<times> (error + playback)" where
  "playAudioQueue createBufferOk currentTime s0 audioData sampleRate =
     (let s = ensureContexts s0 in
      if \<not> outputContext s then (s, Inr NotStarted)
      else if \<not> createBufferOk (length audioData) sampleRate then (s, Inl NotSupportedError)
      else
        let bufferDuration = real (length audioData) / sampleRate;
            s1 = (if nextStartTime s < currentTime
                  then s\<lparr>nextStartTime := currentTime + jitterLatency s\<rparr> else s)
        in if nextStartTime s1 < 0 then (s1, Inl RangeError)
           else (s1\<lparr>nextStartTime := nextStartTime s1 + bufferDuration\<rparr>,
                 Inr (Started (nextStartTime s1) bufferDuration)))"

text \<open>
  A history of calls on one \<^verbatim>\<open>AudioService\<close>. Each call of \<^verbatim>\<open>playAudioQueue\<close>
  carries the clock reading it observes.
\<close>

datatype 'a audio_call =
    PlayAudioQueue (callData: "'a list") (callRate: real) (callTime: real)
  | SetJitterLatency real

text \<open>One entry of the schedule: the frame that was started, and what the call saw.\<close>

record scheduled =
  start :: real
  frameDuration :: real
  now :: real            \<comment> \<open>\<^verbatim>\<open>currentTime\<close> in the call\<close>
  latency :: real        \<comment> \<open>\<^verbatim>\<open>jitterLatency\<close> in the call\<close>
  underrun :: bool       \<comment> \<open>the test \<^verbatim>\<open>nextStartTime < currentTime\<close> in the call\<close>

fun run_audio ::
  "(nat \<Rightarrow> real \<Rightarrow> bool) \<Rightarrow> AudioService \<Rightarrow> 'a audio_call list \<Rightarrow> scheduled list" where
  "run_audio ok s [] = []"
| "run_audio ok s (SetJitterLatency seconds # cs) = run_audio ok (setJitterLatency s seconds) cs"
| "run_audio ok s (PlayAudioQueue audioData rate t # cs) =
     (case playAudioQueue ok t s audioData rate of
        (s', Inr (Started st d)) \<Rightarrow>
          \<lparr>start = st, frameDuration = d, now = t, latency = jitterLatency s,
           underrun = (nextStartTime s < t)\<rparr> # run_audio ok s' cs
      | (s', _) \<Rightarrow> run_audio ok s' cs)"

text \<open>Every frame starts no earlier than its predecessor ends.\<close>

fun back_to_back :: "scheduled list \<Rightarrow> bool" where
  "back_to_back (a # b # fs) = (start a + frameDuration a \<le> start b \<and> back_to_back (b # fs))"
| "back_to_back _ = True"

subsection \<open>Binary helpers of the store\<close>

text \<open>
  \<^verbatim>\<open>float32ToBase64\<close> and \<^verbatim>\<open>base64ToFloat32\<close> copy bytes and never compute with
  the samples. A \<^verbatim>\<open>Float32Array\<close> is a view on an \<^verbatim>\<open>ArrayBuffer\<close>: the bytes of
  the buffer (the source's \<^verbatim>\<open>.buffer\<close>, here \<open>arrayBuffer\<close>), the offset of the
  first element in bytes, and the number of elements (the source's \<^verbatim>\<open>.length\<close>, here
  \<open>arrayLength\<close>). Its elements are the 32-bit patterns at these positions, in
  little-endian byte order.
\<close>

type_synonym Uint8Array = "8 word list"

record Float32Array =
  arrayBuffer :: "8 word list"
  byteOffset :: nat
  arrayLength :: nat

definition float32_bytes :: "32 word \<Rightarrow> 8 word list" where
  "float32_bytes w = [ucast w, ucast (drop_bit 8 w), ucast (drop_bit 16 w), ucast (drop_bit 24 w)]"

definition float32_of_bytes :: "8 word \<Rightarrow> 8 word \<Rightarrow> 8 word \<Rightarrow> 8 word \<Rightarrow> 32 word" where
  "float32_of_bytes b0 b1 b2 b3 =
     ucast b0 OR push_bit 8 (ucast b1) OR push_bit 16 (ucast b2) OR push_bit 24 (ucast b3)"

fun float32_elements :: "8 word list \<Rightarrow> 32 word list" where
  "float32_elements (b0 # b1 # b2 # b3 # bytes) = float32_of_bytes b0 b1 b2 b3 # float32_elements bytes"
| "float32_elements _ = []"

text \<open>The sample sequence that a view shows.\<close>

definition samples :: "Float32Array \<Rightarrow> 32 word list" where
  "samples fa = float32_elements (take (4 * arrayLength fa) (drop (byteOffset fa) (arrayBuffer fa)))"

text \<open>
  \<^verbatim>\<open>new Float32Array(values)\<close> allocates a buffer of its own; \<^verbatim>\<open>subarray(begin, end)\<close>
  is a view on the same buffer.
\<close>

definition Float32Array_from :: "32 word list \<Rightarrow> Float32Array" where
  "Float32Array_from ws =
     \<lparr>arrayBuffer = concat (map float32_bytes ws), byteOffset = 0, arrayLength = length ws\<rparr>"



text \<open>
  \<^verbatim>\<open>new Float32Array(bytes.buffer)\<close>: a view on the whole buffer, a RangeError unless the
  byte length is a multiple of 4.
\<close>

definition Float32Array_of_buffer :: "Uint8Array \<Rightarrow> error + Float32Array" where
  "Float32Array_of_buffer bytes =
     (if length bytes mod 4 \<noteq> 0 then Inl RangeError
      else Inr \<lparr>arrayBuffer = bytes, byteOffset = 0, arrayLength = length bytes div 4\<rparr>)"

text \<open>
  A binary string holds one character per byte; \<^typ>\<open>char\<close> has exactly the codes
  0 to 255. (\<^verbatim>\<open>btoa\<close> throws on a code above 255, which no \<^typ>\<open>char\<close> has.)
\<close>

definition String_fromCharCode :: "8 word \<Rightarrow> char" where
  "String_fromCharCode b = char_of (unat b)"

definition charCode :: "char \<Rightarrow> nat" where
  "charCode c = of_char c"

text \<open>
  \<^verbatim>\<open>btoa\<close> and \<^verbatim>\<open>atob\<close> are functions of the browser. They are written out
  after the HTML standard: \<^verbatim>\<open>btoa\<close> is base64 with padding, \<^verbatim>\<open>atob\<close> is the
  forgiving decoder (ASCII whitespace is dropped, one or two closing \<open>=\<close> are removed
  when the length is a multiple of 4, a length of 1 modulo 4 or a character outside the
  alphabet fails, and the bits left over in the last group are discarded).
\<close>

definition b64_alphabet :: string where
  "b64_alphabet = ''ABCDEFGHIJKLMNOPQRSTUVWXYZabcdefghijklmnopqrstuvwxyz0123456789+/''"

definition b64_char :: "nat \<Rightarrow> char" where
  "b64_char i = b64_alphabet ! i"

fun index_of :: "'a \<Rightarrow> 'a list \<Rightarrow> nat option" where
  "index_of x [] = None"
| "index_of x (y # ys) = (if x = y then Some 0 else map_option Suc (index_of x ys))"

definition b64_index :: "char \<Rightarrow> nat option" where
  "b64_index c = index_of c b64_alphabet"

fun btoa_groups :: "nat list \<Rightarrow> string" where
  "btoa_groups [] = []"
| "btoa_groups [a] =
     [b64_char (a div 4), b64_char ((a mod 4) * 16), CHR ''='', CHR ''='']"
| "btoa_groups [a, b] =
     [b64_char (a div 4), b64_char ((a mod 4) * 16 + b div 16), b64_char ((b mod 16) * 4),
      CHR ''='']"
| "btoa_groups (a # b # c # rest) =
     [b64_char (a div 4), b64_char ((a mod 4) * 16 + b div 16),
      b64_char ((b mod 16) * 4 + c div 64), b64_char (c mod 64)] @ btoa_groups rest"

definition btoa :: "string \<Rightarrow> string" where
  "btoa binary = btoa_groups (map charCode binary)"

definition ascii_whitespace :: "char \<Rightarrow> bool" where
  "ascii_whitespace c = (charCode c \<in> {9, 10, 12, 13, 32})"

definition strip_padding :: "string \<Rightarrow> string" where
  "strip_padding data =
     (if length data mod 4 = 0 then
        (case rev data of
           c1 # c2 # r \<Rightarrow>
             if c1 = CHR ''='' \<and> c2 = CHR ''='' then rev r
             else if c1 = CHR ''='' then rev (c2 # r) else data
         | [c1] \<Rightarrow> if c1 = CHR ''='' then [] else data
         | [] \<Rightarrow> data)
      else data)"

fun atob_groups :: "nat list \<Rightarrow> nat list" where
  "atob_groups (p # q # r # s # rest) =
     [p * 4 + q div 16, (q mod 16) * 16 + r div 4, (r mod 4) * 64 + s] @ atob_groups rest"
| "atob_groups [p, q, r] = [p * 4 + q div 16, (q mod 16) * 16 + r div 4]"
| "atob_groups [p, q] = [p * 4 + q div 16]"
| "atob_groups _ = []"

definition atob :: "string \<Rightarrow> error + string" where
  "atob input =
     (let data = strip_padding (filter (\<lambda>c. \<not> ascii_whitespace c) input) in
      if length data mod 4 = 1 then Inl InvalidCharacterError
      else case those (map b64_index data) of
             None \<Rightarrow> Inl InvalidCharacterError
           | Some sextets \<Rightarrow> Inr (map char_of (atob_groups sextets)))"

text \<open>
  The loop of \<^verbatim>\<open>float32ToBase64\<close>: \<^verbatim>\<open>for (i = 0; i < len; i += chunkSize)\<close>
  appends the characters of \<^verbatim>\<open>bytes.subarray(i, Math.min(i + chunkSize, len))\<close>.
\<close>

definition chunkSize :: nat where
  "chunkSize = 8192"

function fromCharCode_chunks :: "Uint8Array \<Rightarrow> nat \<Rightarrow> string \<Rightarrow> string" where
  "fromCharCode_chunks bytes i binary =
     (if i < length bytes then
        let chunk = take (min (i + chunkSize) (length bytes) - i) (drop i bytes)
        in fromCharCode_chunks bytes (i + chunkSize) (binary @ map String_fromCharCode chunk)
      else binary)"
  by pat_completeness auto
termination
  by (relation "measure (\<lambda>(bytes, i, binary). length bytes - i)") (auto simp: chunkSize_def)

declare fromCharCode_chunks.simps [simp del]

text \<open>
  \<^verbatim>\<open>float32ToBase64\<close> reads \<^verbatim>\<open>new Uint8Array(buffer.buffer)\<close>: all the bytes of the
  buffer behind the view, whatever the view's offset and length.
\<close>

definition float32ToBase64 :: "Float32Array \<Rightarrow> string" where
  "float32ToBase64 buffer =
     (let bytes = arrayBuffer buffer;
          binary = fromCharCode_chunks bytes 0 []
      in btoa binary)"

definition base64ToFloat32 :: "string \<Rightarrow> error + Float32Array" where
  "base64ToFloat32 base64 =
     (case atob base64 of
        Inl e \<Rightarrow> Inl e
      | Inr binary \<Rightarrow>
          let bytes = map (\<lambda>c. word_of_nat (charCode c)) binary
          in Float32Array_of_buffer bytes)"

subsection \<open>Wire schema (\<^verbatim>\<open>types/schema.ts\<close>)\<close>

text \<open>
  Field names are the source's, except where a name is taken in Isabelle:
  \<^verbatim>\<open>Peer.id\<close> is \<open>peer_id\<close>, \<^verbatim>\<open>Peer.name\<close> is \<open>peerName\<close>,
  \<^verbatim>\<open>TranslationEvent.id\<close> and \<^verbatim>\<open>.type\<close> are \<open>eventId\<close> and \<open>eventType\<close>,
  \<^verbatim>\<open>TranscriptionPayload.text\<close> is \<open>transcriptText\<close>,
  \<^verbatim>\<open>TranslationPayload.targetLanguage\<close> is \<open>translationLanguage\<close>. An optional field is an
  \<^typ>\<open>'a option\<close>. The payload of an event is untyped in the source
  (\<^verbatim>\<open>payload: any\<close>); here it is one of the payload shapes, or \<open>OtherPayload\<close> for an
  object with none of the fields a handler reads. A control signal outside the enum, such
  as the heartbeat's \<^verbatim>\<open>'HEARTBEAT'\<close>, is an \<open>OtherSignal\<close>.
\<close>

datatype PeerRole = HOST | GUEST

record Peer =
  peer_id :: string
  peerName :: string
  role :: PeerRole
  batteryLevel :: "nat option"
  isOnline :: bool
  joinedAt :: nat

record LanguageConfig =
  sourceLanguage :: string
  targetLanguage :: string

record RoomState =
  roomId :: string
  hostId :: string
  speakerId :: "string option"
  languageConfig :: LanguageConfig
  isActive :: bool
  peers :: "string \<rightharpoonup> Peer"

datatype EventType = AUDIO_CHUNK | TRANSCRIPTION | TRANSLATION | CONTROL_SIGNAL | STATE_UPDATE

datatype ControlSignal =
    REQUEST_TOKEN | RELEASE_TOKEN | GRANT_TOKEN | MUTE_PEER | KICK_PEER
  | OtherSignal string

record AudioChunkPayload =
  data :: string
  sampleRate :: real
  sequenceId :: nat

record TranscriptionPayload =
  transcriptText :: string
  isFinal :: bool
  originalLanguage :: string

record TranslationPayload =
  originalText :: string
  translatedText :: string
  translationLanguage :: string

record ControlPayload =
  signal :: ControlSignal
  targetPeerId :: "string option"

datatype Payload =
    AudioChunk AudioChunkPayload
  | Transcription TranscriptionPayload
  | Translation TranslationPayload
  | Control ControlPayload
  | OtherPayload

record TranslationEvent =
  eventId :: string
  eventType :: EventType
  senderId :: string
  timestamp :: nat
  payload :: Payload

subsection \<open>NetworkService\<close>

text \<open>
  The \<^verbatim>\<open>Set\<close> of peers keeps insertion order: a list without repetition, with
  \<^verbatim>\<open>add\<close> and \<^verbatim>\<open>delete\<close>. A callback slot holds whether a callback is registered;
  a listener returns, in order, the callbacks it invokes. Strings are compared as
  \<^verbatim>\<open>Array.prototype.sort\<close> does without a comparator: code unit by code unit, a
  proper prefix first.
\<close>

definition Set_add :: "'a \<Rightarrow> 'a list \<Rightarrow> 'a list" where
  "Set_add x xs = (if x \<in> set xs then xs else xs @ [x])"

definition Set_delete :: "'a \<Rightarrow> 'a list \<Rightarrow> 'a list" where
  "Set_delete x xs = filter (\<lambda>y. y \<noteq> x) xs"

record NetworkService =
  room :: bool
  sendAction :: bool
  knownPeers :: "string list"
  heartbeatInterval :: bool
  messageCallback :: bool
  peerJoinCallback :: bool
  peerLeaveCallback :: bool
  hostChangedCallback :: bool

datatype callback =
    OnMessage TranslationEvent string
  | OnPeerJoin string
  | OnPeerLeave string
  | OnHostChanged string

definition NetworkService_new :: "string \<Rightarrow> NetworkService" where
  "NetworkService_new selfId =
     \<lparr>room = False, sendAction = False, knownPeers = Set_add selfId [],
      heartbeatInterval = False, messageCallback = False, peerJoinCallback = False,
      peerLeaveCallback = False, hostChangedCallback = False\<rparr>"

text \<open>
  \<^verbatim>\<open>_handlePeerDiscovery\<close>: \<open>newHostId\<close> is \<^verbatim>\<open>allPeers[0]\<close> after
  \<^verbatim>\<open>allPeers.sort()\<close>; it is read only when the array is not empty.
\<close>

definition newHostId :: "string list \<Rightarrow> string" where
  "newHostId allPeers = sort allPeers ! 0"

definition handlePeerDiscovery :: "NetworkService \<Rightarrow> NetworkService \<times> callback list" where
  "handlePeerDiscovery ns =
     (let allPeers = knownPeers ns in
      if length allPeers = 0 then (ns, [])
      else if hostChangedCallback ns then (ns, [OnHostChanged (newHostId allPeers)])
      else (ns, []))"

definition leaveRoom :: "string \<Rightarrow> NetworkService \<Rightarrow> NetworkService" where
  "leaveRoom selfId ns =
     (let ns1 = (if heartbeatInterval ns then ns\<lparr>heartbeatInterval := False\<rparr> else ns);
          ns2 = (if room ns1 then ns1\<lparr>room := False, sendAction := False\<rparr> else ns1)
      in ns2\<lparr>knownPeers := Set_add selfId []\<rparr>)"

text \<open>
  \<^verbatim>\<open>joinRoom\<close>: \<open>transportOk\<close> says whether the transport's \<^verbatim>\<open>joinRoom\<close> returns;
  when it throws, the \<^verbatim>\<open>catch\<close> block leaves the room and rethrows.
\<close>

definition joinRoom :: "string \<Rightarrow> bool \<Rightarrow> NetworkService \<Rightarrow> (error option \<times> NetworkService) \<times> callback list" where
  "joinRoom selfId transportOk ns =
     (let ns1 = (if room ns then leaveRoom selfId ns else ns) in
      if \<not> transportOk then ((Some TransportFailure, leaveRoom selfId ns1), [])
      else
        let ns2 = ns1\<lparr>room := True, sendAction := True, heartbeatInterval := True\<rparr>;
            (ns3, cbs) = handlePeerDiscovery ns2
        in ((None, ns3), cbs))"

definition peerJoinListener :: "NetworkService \<Rightarrow> string \<Rightarrow> NetworkService \<times> callback list" where
  "peerJoinListener ns peerId =
     (let ns1 = ns\<lparr>knownPeers := Set_add peerId (knownPeers ns)\<rparr>;
          joined = (if peerJoinCallback ns1 then [OnPeerJoin peerId] else []);
          (ns2, cbs) = handlePeerDiscovery ns1
      in (ns2, joined @ cbs))"

definition peerLeaveListener :: "NetworkService \<Rightarrow> string \<Rightarrow> NetworkService \<times> callback list" where
  "peerLeaveListener ns peerId =
     (let ns1 = ns\<lparr>knownPeers := Set_delete peerId (knownPeers ns)\<rparr>;
          left = (if peerLeaveCallback ns1 then [OnPeerLeave peerId] else []);
          (ns2, cbs) = handlePeerDiscovery ns1
      in (ns2, left @ cbs))"

definition messageListener :: "NetworkService \<Rightarrow> TranslationEvent \<Rightarrow> string \<Rightarrow> NetworkService \<times> callback list" where
  "messageListener ns event sender =
     (ns, if messageCallback ns then [OnMessage event sender] else [])"

subsection \<open>useAppStore\<close>

text \<open>
  The store's state, the readings a handler takes from the platform, and the calls a
  handler makes on other services: \<open>Broadcast\<close> is a call of
  \<^verbatim>\<open>networkService.broadcast\<close>, \<open>AudioChunkReceived\<close> a call of the registered
  \<^verbatim>\<open>onAudioChunkReceived\<close> listener.
\<close>

record AppState =
  myId :: string
  isInitialized :: bool
  isMicActive :: bool
  volumeLevel :: nat
  roomState :: RoomState
  transcripts :: "(Payload \<times> string \<times> nat) list"
  onAudioChunkReceived :: bool

record Platform =
  createBufferOk :: "nat \<Rightarrow> real \<Rightarrow> bool"
  currentTime :: real
  randomUUID :: string
  dateNow :: nat

datatype effect =
    Broadcast TranslationEvent
  | AudioChunkReceived Float32Array string

definition useAppStore_initial :: "string \<Rightarrow> AppState" where
  "useAppStore_initial selfId =
     \<lparr>myId = selfId, isInitialized = False, isMicActive = False, volumeLevel = 0,
      roomState = \<lparr>roomId = [], hostId = [], speakerId = None,
                   languageConfig = \<lparr>sourceLanguage = ''en-US'', targetLanguage = ''es-ES''\<rparr>,
                   isActive = True, peers = Map.empty\<rparr>,
      transcripts = [], onAudioChunkReceived = False\<rparr>"

text \<open>The three presence handlers registered by \<^verbatim>\<open>initialize\<close>.\<close>

definition onHostChanged :: "AppState \<Rightarrow> string \<Rightarrow> AppState" where
  "onHostChanged state h = state\<lparr>roomState := (roomState state)\<lparr>hostId := h\<rparr>\<rparr>"

definition onPeerJoin :: "nat \<Rightarrow> AppState \<Rightarrow> string \<Rightarrow> AppState" where
  "onPeerJoin t state peerId =
     (let newPeers = peers (roomState state);
          newPeers1 =
            (if newPeers peerId = None
             then newPeers(peerId \<mapsto>
                    \<lparr>peer_id = peerId, peerName = ''User '' @ take 4 peerId, role = GUEST,
                     batteryLevel = None, isOnline = True, joinedAt = t\<rparr>)
             else newPeers)
      in state\<lparr>roomState := (roomState state)\<lparr>peers := newPeers1\<rparr>\<rparr>)"

definition onPeerLeave :: "AppState \<Rightarrow> string \<Rightarrow> AppState" where
  "onPeerLeave state peerId =
     (let newPeers = (peers (roomState state))(peerId := None);
          speaker = (if speakerId (roomState state) = Some peerId then None
                     else speakerId (roomState state))
      in state\<lparr>roomState := (roomState state)\<lparr>peers := newPeers, speakerId := speaker\<rparr>\<rparr>)"

text \<open>\<^verbatim>\<open>value || fallback\<close> on an optional string: \<^verbatim>\<open>undefined\<close> and the empty string are falsy.\<close>

definition or_string :: "string option \<Rightarrow> string \<Rightarrow> string" where
  "or_string v fallback =
     (case v of None \<Rightarrow> fallback | Some str \<Rightarrow> if str = [] then fallback else str)"

definition or_null :: "string option \<Rightarrow> string option" where
  "or_null v = (case v of None \<Rightarrow> None | Some str \<Rightarrow> if str = [] then None else Some str)"

definition or_rate :: "real \<Rightarrow> real \<Rightarrow> real" where
  "or_rate rate fallback = (if rate = 0 then fallback else rate)"

text \<open>
  \<^verbatim>\<open>handleIncomingEvent(event, senderId)\<close>. It reads \<^verbatim>\<open>roomState\<close> once, at entry,
  and every \<^verbatim>\<open>set\<close> of the control branch writes that snapshot with a new
  \<^verbatim>\<open>speakerId\<close>. The result is the new state of the store and of the audio service, the
  calls made, and the exception thrown, if any. An audio event whose payload has no
  \<^verbatim>\<open>data\<close> passes \<^verbatim>\<open>undefined\<close> to \<^verbatim>\<open>atob\<close>, which throws.
\<close>

definition handleIncomingEvent ::
  "Platform \<Rightarrow> AppState \<times> AudioService \<Rightarrow> TranslationEvent \<Rightarrow> string
     \<Rightarrow> (AppState \<times> AudioService) \<times> effect list \<times> error option" where
  "handleIncomingEvent P st event sender =
     (let state = fst st; player = snd st; roomState0 = roomState state in
      case eventType event of
        AUDIO_CHUNK \<Rightarrow>
          if sender \<noteq> myId state then
            (case payload event of
               AudioChunk p \<Rightarrow>
                 (case base64ToFloat32 (data p) of
                    Inl e \<Rightarrow> (st, [], Some e)
                  | Inr floatArray \<Rightarrow>
                      if sender = ''TRANSLATOR_BOT'' then
                        (case playAudioQueue (createBufferOk P) (currentTime P) player
                                (samples floatArray) (or_rate (sampleRate p) 24000) of
                           (player1, Inl e) \<Rightarrow> ((state, player1), [], Some e)
                         | (player1, Inr _) \<Rightarrow> ((state, player1), [], None))
                      else
                        (case playAudioQueue (createBufferOk P) (currentTime P) player
                                (samples floatArray) (or_rate (sampleRate p) 16000) of
                           (player1, Inl e) \<Rightarrow> ((state, player1), [], Some e)
                         | (player1, Inr _) \<Rightarrow>
                             ((state, player1),
                              (if onAudioChunkReceived state
                               then [AudioChunkReceived floatArray sender] else []),
                              None)))
             | _ \<Rightarrow> (st, [], Some InvalidCharacterError))
          else (st, [], None)
      | CONTROL_SIGNAL \<Rightarrow>
          (case payload event of
             Control p \<Rightarrow>
               let (state1, sent) =
                     (if signal p = REQUEST_TOKEN then
                        if myId state = hostId roomState0 then
                          let granteeId = or_string (targetPeerId p) sender;
                              grantEvent =
                                \<lparr>eventId = randomUUID P, eventType = CONTROL_SIGNAL,
                                 senderId = myId state, timestamp = dateNow P,
                                 payload = Control \<lparr>signal = GRANT_TOKEN,
                                                    targetPeerId = Some granteeId\<rparr>\<rparr>
                          in (state\<lparr>roomState := roomState0\<lparr>speakerId := Some granteeId\<rparr>\<rparr>,
                              [Broadcast grantEvent])
                        else (state, [])
                      else (state, []));
                   state2 =
                     (if signal p = GRANT_TOKEN then
                        let newSpeakerId = targetPeerId p
                        in state1\<lparr>roomState := roomState0\<lparr>speakerId := or_null newSpeakerId\<rparr>\<rparr>
                      else state1);
                   state3 =
                     (if signal p = RELEASE_TOKEN
                      then state2\<lparr>roomState := roomState0\<lparr>speakerId := None\<rparr>\<rparr>
                      else state2)
               in ((state3, player), sent, None)
           | _ \<Rightarrow> (st, [], None))
      | TRANSCRIPTION \<Rightarrow>
          ((state\<lparr>transcripts := transcripts state @ [(payload event, sender, timestamp event)]\<rparr>,
            player), [], None)
      | _ \<Rightarrow> (st, [], None))"

text \<open>The store's handlers as \<^verbatim>\<open>initialize\<close> registers them on the network service.\<close>

fun deliver ::
  "Platform \<Rightarrow> AppState \<times> AudioService \<Rightarrow> callback
     \<Rightarrow> (AppState \<times> AudioService) \<times> effect list \<times> error option" where
  "deliver P st (OnHostChanged h) = ((onHostChanged (fst st) h, snd st), [], None)"
| "deliver P st (OnPeerJoin peerId) = ((onPeerJoin (dateNow P) (fst st) peerId, snd st), [], None)"
| "deliver P st (OnPeerLeave peerId) = ((onPeerLeave (fst st) peerId, snd st), [], None)"
| "deliver P st (OnMessage event sender) = handleIncomingEvent P st event sender"

text \<open>The states after each callback of a sequence, each with its platform readings.\<close>

fun run_store ::
  "AppState \<times> AudioService \<Rightarrow> (Platform \<times> callback) list \<Rightarrow> (AppState \<times> AudioService) list" where
  "run_store st [] = []"
| "run_store st ((P, cb) # cbs) =
     (let st1 = fst (deliver P st cb) in st1 # run_store st1 cbs)"

definition grantedSpeakers :: "AppState \<Rightarrow> string set" where
  "grantedSpeakers state = set_option (speakerId (roomState state))"

text \<open>
  The peer ids that a callback offers for the floor: the transport's sender id of a
  message and, in a control payload, the target.
\<close>

fun named_ids :: "callback \<Rightarrow> string list" where
  "named_ids (OnMessage event sender) =
     sender # (case payload event of
                 Control p \<Rightarrow> (case targetPeerId p of Some t \<Rightarrow> [t] | None \<Rightarrow> [])
               | _ \<Rightarrow> [])"
| "named_ids _ = []"

text \<open>
  The sender id that the transport passes with a message is a peer id: a non-empty
  string. So is a speaker, if there is one.
\<close>

fun sent_by_peer :: "callback \<Rightarrow> bool" where
  "sent_by_peer (OnMessage event sender) = (sender \<noteq> [])"
| "sent_by_peer _ = True"

fun from_peers :: "(Platform \<times> callback) list \<Rightarrow> bool" where
  "from_peers [] = True"
| "from_peers ((P, cb) # cbs) = (sent_by_peer cb \<and> from_peers cbs)"

definition speaker_is_peer :: "string option \<Rightarrow> bool" where
  "speaker_is_peer v = (case v of None \<Rightarrow> True | Some p \<Rightarrow> p \<noteq> [])"

subsection \<open>Auxiliary functions of the proofs\<close>

text \<open>The six-bit values and the padding that \<open>btoa_groups\<close> produces.\<close>

fun sextets :: "nat list \<Rightarrow> nat list" where
  "sextets [] = []"
| "sextets [a] = [a div 4, (a mod 4) * 16]"
| "sextets [a, b] = [a div 4, (a mod 4) * 16 + b div 16, (b mod 16) * 4]"
| "sextets (a # b # c # rest) =
     [a div 4, (a mod 4) * 16 + b div 16, (b mod 16) * 4 + c div 64, c mod 64] @ sextets rest"

fun padding :: "nat list \<Rightarrow> string" where
  "padding [] = []"
| "padding [a] = [CHR ''='', CHR ''='']"
| "padding [a, b] = [CHR ''='']"
| "padding (a # b # c # rest) = padding rest"

text \<open>The first frame of a schedule, if any, starts no earlier than \<open>t\<close>.\<close>

definition starts_from :: "real \<Rightarrow> scheduled list \<Rightarrow> bool" where
  "starts_from t fs = (case fs of [] \<Rightarrow> True | f # _ \<Rightarrow> t \<le> start f)"

subsection \<open>Example scenarios\<close>

text \<open>A browser that accepts every non-empty buffer at a positive rate.\<close>

definition sample_platform :: "string \<Rightarrow> nat \<Rightarrow> Platform" where
  "sample_platform uuid t =
     \<lparr>createBufferOk = (\<lambda>n r. 0 < n \<and> 0 < r), currentTime = 0, randomUUID = uuid, dateNow = t\<rparr>"

definition control_event :: "string \<Rightarrow> ControlSignal \<Rightarrow> string option \<Rightarrow> TranslationEvent" where
  "control_event sender sig target =
     \<lparr>eventId = ''e1'', eventType = CONTROL_SIGNAL, senderId = sender, timestamp = 7,
      payload = Control \<lparr>signal = sig, targetPeerId = target\<rparr>\<rparr>"

text \<open>The store of peer \<open>self\<close> once it has been told that \<open>host\<close> is the host.\<close>

definition store_with_host :: "string \<Rightarrow> string \<Rightarrow> AppState \<times> AudioService" where
  "store_with_host self host = (onHostChanged (useAppStore_initial self) host, AudioService_new)"

text \<open>
  A request from \<open>B\<close>, a grant for \<open>C\<close>, the leave of \<open>C\<close>, and a release from
  \<open>B\<close>.
\<close>

definition floor_scenario :: "(Platform \<times> callback) list" where
  "floor_scenario =
     [(sample_platform ''u1'' 1, OnMessage (control_event ''B'' REQUEST_TOKEN (Some ''B'')) ''B''),
      (sample_platform ''u2'' 2, OnMessage (control_event ''A'' GRANT_TOKEN (Some ''C'')) ''A''),
      (sample_platform ''u3'' 3, OnPeerLeave ''C''),
      (sample_platform ''u4'' 4, OnMessage (control_event ''B'' RELEASE_TOKEN None) ''B'')]"

text \<open>
  Two frames back to back, a change of latency, an empty frame (rejected by the browser),
  and a frame after an underrun.
\<close>

definition playback_scenario :: "32 word audio_call list" where
  "playback_scenario =
     [PlayAudioQueue [0, 0] 2 1, PlayAudioQueue [0] 4 (3 / 2), SetJitterLatency (1 / 10),
      PlayAudioQueue [] 4 2, PlayAudioQueue [0, 0, 0] 1 5]"

section \<open>Properties\<close>

subsection \<open>Leader election\<close>

lemma newHostId_Min:
  assumes "allPeers \<noteq> []"
  shows "newHostId allPeers = Min (set allPeers)"
proof -
  have ne: "sort allPeers \<noteq> []" using assms by (metis length_sort length_0_conv)
  then have mem: "sort allPeers ! 0 \<in> set allPeers"
    by (metis length_greater_0_conv nth_mem set_sort)
  have "sort allPeers ! 0 \<le> x" if "x \<in> set allPeers" for x
  proof -
    from that have "x \<in> set (sort allPeers)" by simp
    then obtain i where "i < length (sort allPeers)" "sort allPeers ! i = x"
      by (metis in_set_conv_nth)
    then show ?thesis using sorted_nth_mono [OF sorted_sort, of 0 i allPeers] by auto
  qed
  then show ?thesis
    unfolding newHostId_def using mem by (intro Min_eqI [symmetric]) auto
qed

lemma set_Set_add: "set (Set_add x xs) = insert x (set xs)"
  by (auto simp: Set_add_def)

lemma set_Set_delete: "set (Set_delete x xs) = set xs - {x}"
  by (auto simp: Set_delete_def)

text \<open>
  C3. For a non-empty set of known peers the election computes the smallest id in the
  lexicographic order, and notifies it when a host-changed callback is registered. The
  result depends on the set only, not on the order in which joins and leaves built it,
  and running the election again on the state it leaves gives the same result.
\<close>

theorem election_smallest_id:
  assumes "knownPeers ns \<noteq> []"
  shows "newHostId (knownPeers ns) = Min (set (knownPeers ns))
       \<and> (hostChangedCallback ns \<longrightarrow>
            handlePeerDiscovery ns = (ns, [OnHostChanged (Min (set (knownPeers ns)))]))
       \<and> (\<forall>ns'. set (knownPeers ns') = set (knownPeers ns) \<longrightarrow>
            newHostId (knownPeers ns') = newHostId (knownPeers ns))
       \<and> handlePeerDiscovery (fst (handlePeerDiscovery ns)) = handlePeerDiscovery ns"
proof -
  have a: "newHostId (knownPeers ns) = Min (set (knownPeers ns))"
    by (rule newHostId_Min [OF assms])
  have b: "hostChangedCallback ns \<longrightarrow>
            handlePeerDiscovery ns = (ns, [OnHostChanged (Min (set (knownPeers ns)))])"
    using assms a by (simp add: handlePeerDiscovery_def Let_def)
  have c: "newHostId (knownPeers ns') = newHostId (knownPeers ns)"
    if "set (knownPeers ns') = set (knownPeers ns)" for ns'
  proof -
    from that assms have "knownPeers ns' \<noteq> []" by (metis set_empty)
    then show ?thesis using that a newHostId_Min by simp
  qed
  have d: "handlePeerDiscovery (fst (handlePeerDiscovery ns)) = handlePeerDiscovery ns"
    by (simp add: handlePeerDiscovery_def Let_def)
  from a b c d show ?thesis by blast
qed

theorem election_smallest_id_witness:
  "knownPeers ((NetworkService_new ''C'')\<lparr>knownPeers := [''C'', ''A'', ''B''], hostChangedCallback := True\<rparr>) \<noteq> []
   \<and> handlePeerDiscovery ((NetworkService_new ''C'')\<lparr>knownPeers := [''C'', ''A'', ''B''], hostChangedCallback := True\<rparr>)
       = ((NetworkService_new ''C'')\<lparr>knownPeers := [''C'', ''A'', ''B''], hostChangedCallback := True\<rparr>,
          [OnHostChanged ''A''])
   \<and> newHostId [''B'', ''C'', ''A''] = newHostId [''C'', ''A'', ''B'']"
  using election_smallest_id [of "(NetworkService_new ''C'')\<lparr>knownPeers := [''C'', ''A'', ''B''], hostChangedCallback := True\<rparr>"]
  by (simp add: NetworkService_new_def newHostId_def handlePeerDiscovery_def)

text \<open>
  C4. The claim: a host-changed notification is emitted only when the computed host
  differs from the one emitted before (and once for the first computation). The comment
  in \<^verbatim>\<open>_handlePeerDiscovery\<close> says the same (``Notify if host has changed (or is
  initially determined)''), but the code calls the callback on every run. Peer \<open>A\<close>
  joins a room and is notified of host \<open>A\<close>; peer \<open>B\<close> joins, the computed host is
  still \<open>A\<close>, and the notification is emitted again.
\<close>

theorem host_changed_emitted_again:
  "joinRoom ''A'' True ((NetworkService_new ''A'')\<lparr>hostChangedCallback := True\<rparr>)
     = ((None, \<lparr>room = True, sendAction = True, knownPeers = [''A''], heartbeatInterval = True,
                messageCallback = False, peerJoinCallback = False, peerLeaveCallback = False,
                hostChangedCallback = True\<rparr>),
        [OnHostChanged ''A''])
   \<and> peerJoinListener
        \<lparr>room = True, sendAction = True, knownPeers = [''A''], heartbeatInterval = True,
         messageCallback = False, peerJoinCallback = False, peerLeaveCallback = False,
         hostChangedCallback = True\<rparr> ''B''
     = (\<lparr>room = True, sendAction = True, knownPeers = [''A'', ''B''], heartbeatInterval = True,
         messageCallback = False, peerJoinCallback = False, peerLeaveCallback = False,
         hostChangedCallback = True\<rparr>,
        [OnHostChanged ''A''])"
  by (simp add: joinRoom_def peerJoinListener_def handlePeerDiscovery_def NetworkService_new_def
      Set_add_def newHostId_def Let_def)

subsection \<open>Floor control\<close>

lemma length_run_store: "length (run_store st cbs) = length cbs"
proof (induction cbs arbitrary: st)
  case Nil
  show ?case by simp
next
  case (Cons c cbs)
  obtain P cb where c: "c = (P, cb)" by (cases c)
  show ?case unfolding c by (simp add: Let_def Cons.IH)
qed

lemma card_grantedSpeakers: "card (grantedSpeakers state) \<le> 1"
  by (cases "speakerId (roomState state)") (simp_all add: grantedSpeakers_def)

text \<open>What a message does to \<^verbatim>\<open>speakerId\<close>, read off \<^verbatim>\<open>handleIncomingEvent\<close>.\<close>

lemma handleIncomingEvent_other_speaker:
  assumes "eventType event \<noteq> CONTROL_SIGNAL"
  shows "speakerId (roomState (fst (fst (handleIncomingEvent P st event sender))))
         = speakerId (roomState (fst st))"
  using assms
  by (cases st; cases "eventType event")
     (auto simp: handleIncomingEvent_def Let_def split: Payload.splits sum.splits prod.splits)

lemma handleIncomingEvent_control_speaker:
  assumes "eventType event = CONTROL_SIGNAL"
  shows "speakerId (roomState (fst (fst (handleIncomingEvent P st event sender))))
         = (case payload event of
              Control p \<Rightarrow>
                if signal p = REQUEST_TOKEN then
                  (if myId (fst st) = hostId (roomState (fst st))
                   then Some (or_string (targetPeerId p) sender)
                   else speakerId (roomState (fst st)))
                else if signal p = GRANT_TOKEN then or_null (targetPeerId p)
                else if signal p = RELEASE_TOKEN then None
                else speakerId (roomState (fst st))
            | _ \<Rightarrow> speakerId (roomState (fst st)))"
  using assms
  by (cases st) (auto simp: handleIncomingEvent_def Let_def split: Payload.splits)

lemma or_string_named:
  "or_string v sender \<in> set (sender # (case v of Some t \<Rightarrow> [t] | None \<Rightarrow> []))
   \<and> (sender \<noteq> [] \<longrightarrow> or_string v sender \<noteq> [])"
  by (auto simp: or_string_def split: option.splits)

lemma or_null_named:
  "or_null v = None
   \<or> (\<exists>t. or_null v = Some t \<and> t \<noteq> []
          \<and> t \<in> set (sender # (case v of Some t \<Rightarrow> [t] | None \<Rightarrow> [])))"
  by (auto simp: or_null_def split: option.splits)

lemma deliver_speaker_named:
  "speakerId (roomState (fst (fst (deliver P st cb)))) = None
   \<or> speakerId (roomState (fst (fst (deliver P st cb)))) = speakerId (roomState (fst st))
   \<or> (\<exists>p \<in> set (named_ids cb). (sent_by_peer cb \<longrightarrow> p \<noteq> [])
         \<and> speakerId (roomState (fst (fst (deliver P st cb)))) = Some p)"
proof (cases cb)
  case (OnMessage event sender)
  let ?after = "speakerId (roomState (fst (fst (handleIncomingEvent P st event sender))))"
  let ?before = "speakerId (roomState (fst st))"
  have "?after = None \<or> ?after = ?before
       \<or> (\<exists>p \<in> set (named_ids (OnMessage event sender)).
             (sender \<noteq> [] \<longrightarrow> p \<noteq> []) \<and> ?after = Some p)"
  proof (cases "eventType event = CONTROL_SIGNAL")
    case False
    then show ?thesis by (simp add: handleIncomingEvent_other_speaker)
  next
    case True
    note after = handleIncomingEvent_control_speaker [OF True, of P st sender]
    show ?thesis
    proof (cases "payload event")
      case (Control p)
      let ?ids = "sender # (case targetPeerId p of Some t \<Rightarrow> [t] | None \<Rightarrow> [])"
      have ids: "named_ids (OnMessage event sender) = ?ids" using Control by simp
      consider (request) "signal p = REQUEST_TOKEN" "myId (fst st) = hostId (roomState (fst st))"
        | (grant) "signal p = GRANT_TOKEN"
        | (release) "signal p = RELEASE_TOKEN"
        | (ignored) "?after = ?before"
        using after Control by (auto split: if_splits)
      then show ?thesis
      proof cases
        case request
        then have "?after = Some (or_string (targetPeerId p) sender)"
          using after Control by simp
        then show ?thesis
          unfolding ids using or_string_named [of "targetPeerId p" sender] by blast
      next
        case grant
        then have "?after = or_null (targetPeerId p)"
          using after Control by simp
        then show ?thesis
          unfolding ids using or_null_named [of "targetPeerId p" sender] by metis
      next
        case release
        then have "?after = None" using after Control by simp
        then show ?thesis by blast
      next
        case ignored
        then show ?thesis by blast
      qed
    qed (use after in simp_all)
  qed
  then show ?thesis using OnMessage by simp
next
  case (OnPeerJoin peerId)
  then show ?thesis by (simp add: onPeerJoin_def Let_def)
next
  case (OnPeerLeave peerId)
  then show ?thesis by (simp add: onPeerLeave_def Let_def)
next
  case (OnHostChanged h)
  then show ?thesis by (simp add: onHostChanged_def)
qed

lemma deliver_speaker:
  assumes "sent_by_peer cb"
  shows "speakerId (roomState (fst (fst (deliver P st cb)))) = None
       \<or> speakerId (roomState (fst (fst (deliver P st cb)))) = speakerId (roomState (fst st))
       \<or> (\<exists>p \<in> set (named_ids cb). p \<noteq> []
             \<and> speakerId (roomState (fst (fst (deliver P st cb)))) = Some p)"
  using deliver_speaker_named [of P st cb] assms by blast

text \<open>Every speaker of a run is the starting speaker or is named by a callback.\<close>

lemma run_store_named:
  "\<forall>st \<in> set (run_store st0 cbs).
     speakerId (roomState (fst st)) = None
     \<or> speakerId (roomState (fst st)) = speakerId (roomState (fst st0))
     \<or> (\<exists>p \<in> set (concat (map (named_ids \<circ> snd) cbs)).
           speakerId (roomState (fst st)) = Some p)"
proof (induction cbs arbitrary: st0)
  case Nil
  show ?case by simp
next
  case (Cons c cbs)
  obtain P cb where c: "c = (P, cb)" by (cases c)
  let ?st1 = "fst (deliver P st0 cb)"
  let ?sp = "\<lambda>st. speakerId (roomState (fst st))"
  have step: "?sp ?st1 = None \<or> ?sp ?st1 = ?sp st0
       \<or> (\<exists>p \<in> set (named_ids cb). ?sp ?st1 = Some p)"
    using deliver_speaker_named [of P st0 cb] by blast
  have named: "set (concat (map (named_ids \<circ> snd) (c # cbs)))
       = set (named_ids cb) \<union> set (concat (map (named_ids \<circ> snd) cbs))"
    using c by simp
  have first: "?sp ?st1 = None \<or> ?sp ?st1 = ?sp st0
       \<or> (\<exists>p \<in> set (concat (map (named_ids \<circ> snd) (c # cbs))). ?sp ?st1 = Some p)"
    using step unfolding named by blast
  have later: "?sp st = None \<or> ?sp st = ?sp st0
       \<or> (\<exists>p \<in> set (concat (map (named_ids \<circ> snd) (c # cbs))). ?sp st = Some p)"
    if "st \<in> set (run_store ?st1 cbs)" for st
  proof -
    have "?sp st = None \<or> ?sp st = ?sp ?st1
       \<or> (\<exists>p \<in> set (concat (map (named_ids \<circ> snd) cbs)). ?sp st = Some p)"
      using Cons.IH [of ?st1] that by (rule bspec)
    then show ?thesis using first unfolding named by auto
  qed
  have run: "run_store st0 (c # cbs) = ?st1 # run_store ?st1 cbs"
    unfolding c by (simp add: Let_def)
  show ?case unfolding run using first later by (simp del: run_store.simps)
qed

lemma speaker_is_peer_iff: "speaker_is_peer v \<longleftrightarrow> v = None \<or> (\<exists>p. v = Some p \<and> p \<noteq> [])"
  by (cases v) (simp_all add: speaker_is_peer_def)

lemma run_store_speakers:
  assumes "speaker_is_peer (speakerId (roomState (fst st0)))" and "from_peers cbs"
  shows "\<forall>st \<in> set (run_store st0 cbs).
           speakerId (roomState (fst st)) = None
           \<or> (\<exists>p. speakerId (roomState (fst st)) = Some p \<and> p \<noteq> []
                 \<and> (Some p = speakerId (roomState (fst st0))
                      \<or> p \<in> set (concat (map (named_ids \<circ> snd) cbs))))"
  using assms
proof (induction cbs arbitrary: st0)
  case Nil
  show ?case by simp
next
  case (Cons c cbs)
  obtain P cb where c: "c = (P, cb)" by (cases c)
  let ?st1 = "fst (deliver P st0 cb)"
  let ?sp = "\<lambda>st. speakerId (roomState (fst st))"
  from Cons.prems c have peer: "sent_by_peer cb" and rest: "from_peers cbs" by simp_all
  have step: "?sp ?st1 = None \<or> ?sp ?st1 = ?sp st0
       \<or> (\<exists>p \<in> set (named_ids cb). p \<noteq> [] \<and> ?sp ?st1 = Some p)"
    by (rule deliver_speaker [OF peer])
  then have ok1: "speaker_is_peer (?sp ?st1)"
    using Cons.prems(1) unfolding speaker_is_peer_iff by metis
  have first: "?sp ?st1 = None
       \<or> (\<exists>p. ?sp ?st1 = Some p \<and> p \<noteq> []
             \<and> (Some p = ?sp st0 \<or> p \<in> set (concat (map (named_ids \<circ> snd) (c # cbs)))))"
  proof -
    from step consider "?sp ?st1 = None" | "?sp ?st1 = ?sp st0"
      | p where "p \<in> set (named_ids cb)" "p \<noteq> []" "?sp ?st1 = Some p" by auto
    then show ?thesis
    proof cases
      case 1
      then show ?thesis by blast
    next
      case 2
      then show ?thesis using Cons.prems(1) unfolding speaker_is_peer_iff by metis
    next
      case 3
      then have "p \<in> set (concat (map (named_ids \<circ> snd) (c # cbs)))" using c by simp
      then show ?thesis using 3 by blast
    qed
  qed
  have later: "?sp st = None
       \<or> (\<exists>p. ?sp st = Some p \<and> p \<noteq> []
             \<and> (Some p = ?sp st0 \<or> p \<in> set (concat (map (named_ids \<circ> snd) (c # cbs)))))"
    if "st \<in> set (run_store ?st1 cbs)" for st
  proof -
    have "?sp st = None
       \<or> (\<exists>p. ?sp st = Some p \<and> p \<noteq> []
             \<and> (Some p = ?sp ?st1 \<or> p \<in> set (concat (map (named_ids \<circ> snd) cbs))))"
      using Cons.IH [OF ok1 rest] that by (rule bspec)
    then consider "?sp st = None"
      | p where "?sp st = Some p" "p \<noteq> []" "Some p = ?sp ?st1"
      | p where "?sp st = Some p" "p \<noteq> []" "p \<in> set (concat (map (named_ids \<circ> snd) cbs))"
      by auto
    then show ?thesis
    proof cases
      case 1
      then show ?thesis by blast
    next
      case 2
      then have "?sp st = ?sp ?st1" by simp
      then show ?thesis using first by simp
    next
      case 3
      then have "p \<in> set (concat (map (named_ids \<circ> snd) (c # cbs)))" by simp
      then show ?thesis using 3 by blast
    qed
  qed
  have run: "run_store st0 (c # cbs) = ?st1 # run_store ?st1 cbs"
    unfolding c by (simp add: Let_def)
  show ?case unfolding run using first later by (simp del: run_store.simps)
qed

text \<open>
  C1. Take any sequence of callbacks of the store (messages through
  \<^verbatim>\<open>handleIncomingEvent\<close>, peer leaves, peer joins, host changes) from any state.
  After every step \<^verbatim>\<open>speakerId\<close> is null or exactly one id, and that id is the
  speaker of the starting state or the sender or the target of a message of the sequence;
  the set of peers that hold the floor never has two elements. When the messages come
  from peers and the starting speaker, if any, is a peer id, the one id is a peer id too:
  it is not empty.
\<close>

theorem single_speaker_invariant:
  "\<forall>st \<in> set (run_store st0 cbs).
     card (grantedSpeakers (fst st)) \<le> 1
     \<and> (speakerId (roomState (fst st)) = None
        \<or> (\<exists>p. speakerId (roomState (fst st)) = Some p \<and> grantedSpeakers (fst st) = {p}
              \<and> (Some p = speakerId (roomState (fst st0))
                   \<or> p \<in> set (concat (map (named_ids \<circ> snd) cbs)))
              \<and> (speaker_is_peer (speakerId (roomState (fst st0))) \<and> from_peers cbs
                   \<longrightarrow> p \<noteq> [])))"
proof
  fix st
  assume st: "st \<in> set (run_store st0 cbs)"
  let ?sp = "speakerId (roomState (fst st))"
  have named: "?sp = None \<or> ?sp = speakerId (roomState (fst st0))
     \<or> (\<exists>p \<in> set (concat (map (named_ids \<circ> snd) cbs)). ?sp = Some p)"
    using run_store_named st by (rule bspec)
  have peer: "p \<noteq> []"
    if "speaker_is_peer (speakerId (roomState (fst st0)))" "from_peers cbs" "?sp = Some p" for p
    using run_store_speakers [OF that(1,2)] st that(3) by auto
  have holder: "grantedSpeakers (fst st) = {p}" if "?sp = Some p" for p
    using that by (simp add: grantedSpeakers_def)
  have "?sp = None
        \<or> (\<exists>p. ?sp = Some p \<and> grantedSpeakers (fst st) = {p}
              \<and> (Some p = speakerId (roomState (fst st0))
                   \<or> p \<in> set (concat (map (named_ids \<circ> snd) cbs)))
              \<and> (speaker_is_peer (speakerId (roomState (fst st0))) \<and> from_peers cbs
                   \<longrightarrow> p \<noteq> []))"
  proof (cases ?sp)
    case None
    then show ?thesis by simp
  next
    case (Some p)
    have "Some p = speakerId (roomState (fst st0))
          \<or> p \<in> set (concat (map (named_ids \<circ> snd) cbs))"
      using named Some by auto
    then show ?thesis using Some holder [OF Some] peer [OF _ _ Some] by simp
  qed
  then show "card (grantedSpeakers (fst st)) \<le> 1
     \<and> (?sp = None
        \<or> (\<exists>p. ?sp = Some p \<and> grantedSpeakers (fst st) = {p}
              \<and> (Some p = speakerId (roomState (fst st0))
                   \<or> p \<in> set (concat (map (named_ids \<circ> snd) cbs)))
              \<and> (speaker_is_peer (speakerId (roomState (fst st0))) \<and> from_peers cbs
                   \<longrightarrow> p \<noteq> [])))"
    using card_grantedSpeakers by blast
qed

text \<open>Host \<open>A\<close> runs the floor scenario.\<close>

theorem single_speaker_invariant_witness:
  "speaker_is_peer (speakerId (roomState (fst (store_with_host ''A'' ''A''))))
   \<and> from_peers floor_scenario
   \<and> map (\<lambda>st. speakerId (roomState (fst st))) (run_store (store_with_host ''A'' ''A'') floor_scenario)
     = [Some ''B'', Some ''C'', None, None]
   \<and> card (grantedSpeakers (fst (run_store (store_with_host ''A'' ''A'') floor_scenario ! 1))) \<le> 1
   \<and> grantedSpeakers (fst (run_store (store_with_host ''A'' ''A'') floor_scenario ! 1)) = {''C''}"
proof -
  let ?run = "run_store (store_with_host ''A'' ''A'') floor_scenario"
  have free: "speaker_is_peer (speakerId (roomState (fst (store_with_host ''A'' ''A''))))"
    by (simp add: speaker_is_peer_def store_with_host_def onHostChanged_def useAppStore_initial_def)
  have peers: "from_peers floor_scenario"
    by (simp add: floor_scenario_def)
  have speakers:
    "map (\<lambda>st. speakerId (roomState (fst st))) ?run = [Some ''B'', Some ''C'', None, None]"
    by (simp add: floor_scenario_def store_with_host_def control_event_def sample_platform_def
        handleIncomingEvent_def onHostChanged_def onPeerLeave_def useAppStore_initial_def
        or_string_def or_null_def Let_def)
  have "length floor_scenario = 4" by (simp add: floor_scenario_def)
  then have len: "1 < length ?run" by (simp only: length_run_store)
  then have mem: "?run ! 1 \<in> set ?run" by (rule nth_mem)
  have "map (\<lambda>st. speakerId (roomState (fst st))) ?run ! 1 = speakerId (roomState (fst (?run ! 1)))"
    using len by (rule nth_map)
  then have second: "speakerId (roomState (fst (?run ! 1))) = Some ''C''"
    unfolding speakers by simp
  have "card (grantedSpeakers (fst (?run ! 1))) \<le> 1
     \<and> (speakerId (roomState (fst (?run ! 1))) = None
        \<or> (\<exists>p. speakerId (roomState (fst (?run ! 1))) = Some p
              \<and> grantedSpeakers (fst (?run ! 1)) = {p}
              \<and> (Some p = speakerId (roomState (fst (store_with_host ''A'' ''A'')))
                   \<or> p \<in> set (concat (map (named_ids \<circ> snd) floor_scenario)))
              \<and> (speaker_is_peer (speakerId (roomState (fst (store_with_host ''A'' ''A''))))
                     \<and> from_peers floor_scenario
                   \<longrightarrow> p \<noteq> [])))"
    using single_speaker_invariant mem by (rule bspec)
  then have "card (grantedSpeakers (fst (?run ! 1))) \<le> 1"
    and "grantedSpeakers (fst (?run ! 1)) = {''C''}"
    unfolding second by auto
  with free peers speakers show ?thesis by (intro conjI)
qed

text \<open>
  C2. A \<^verbatim>\<open>RequestToken\<close> control event handled by a peer whose id is not the room's
  \<^verbatim>\<open>hostId\<close> changes nothing and makes no call: no grant is broadcast and
  \<^verbatim>\<open>speakerId\<close> stays as it was.
\<close>

theorem request_ignored_by_non_host:
  assumes "eventType event = CONTROL_SIGNAL"
    and "payload event = Control p"
    and "signal p = REQUEST_TOKEN"
    and "myId (fst st) \<noteq> hostId (roomState (fst st))"
  shows "handleIncomingEvent P st event sender = (st, [], None)"
  using assms by (cases st) (simp add: handleIncomingEvent_def Let_def)

text \<open>Guest \<open>B\<close>, whose host is \<open>A\<close>, receives a request from \<open>C\<close>.\<close>

theorem request_ignored_by_non_host_witness:
  "myId (fst (store_with_host ''B'' ''A'')) \<noteq> hostId (roomState (fst (store_with_host ''B'' ''A'')))
   \<and> handleIncomingEvent (sample_platform ''u1'' 7) (store_with_host ''B'' ''A'')
       (control_event ''C'' REQUEST_TOKEN (Some ''C'')) ''C''
     = (store_with_host ''B'' ''A'', [], None)"
  using request_ignored_by_non_host
    [of "control_event ''C'' REQUEST_TOKEN (Some ''C'')"
        "\<lparr>signal = REQUEST_TOKEN, targetPeerId = Some ''C''\<rparr>"
        "store_with_host ''B'' ''A''" "sample_platform ''u1'' 7" "''C''"]
  by (simp add: control_event_def store_with_host_def onHostChanged_def useAppStore_initial_def)

text \<open>
  C5. The peer-leave handler is the whole reaction of the store to a leave: it makes no
  call and throws nothing. If the peer that left holds the floor, \<^verbatim>\<open>speakerId\<close> becomes
  null, with no \<^verbatim>\<open>ReleaseToken\<close> involved; otherwise \<^verbatim>\<open>speakerId\<close> is unchanged.
\<close>

theorem peer_leave_clears_speaker:
  "deliver P st (OnPeerLeave peerId) = ((onPeerLeave (fst st) peerId, snd st), [], None)
   \<and> speakerId (roomState (onPeerLeave (fst st) peerId)) =
       (if speakerId (roomState (fst st)) = Some peerId then None
        else speakerId (roomState (fst st)))"
  by (simp add: onPeerLeave_def Let_def)

text \<open>
  Host \<open>A\<close> has granted the floor to \<open>C\<close> (the first two steps of the floor
  scenario); \<open>C\<close> leaves.
\<close>

theorem peer_leave_clears_speaker_witness:
  "speakerId (roomState (fst (run_store (store_with_host ''A'' ''A'') (take 2 floor_scenario) ! 1)))
     = Some ''C''
   \<and> speakerId (roomState (onPeerLeave
         (fst (run_store (store_with_host ''A'' ''A'') (take 2 floor_scenario) ! 1)) ''C'')) = None"
proof -
  let ?st = "run_store (store_with_host ''A'' ''A'') (take 2 floor_scenario) ! 1"
  have before: "speakerId (roomState (fst ?st)) = Some ''C''"
    by (simp add: floor_scenario_def store_with_host_def control_event_def sample_platform_def
        handleIncomingEvent_def onHostChanged_def useAppStore_initial_def
        or_string_def or_null_def Let_def)
  have "speakerId (roomState (onPeerLeave (fst ?st) ''C'')) =
       (if speakerId (roomState (fst ?st)) = Some ''C'' then None
        else speakerId (roomState (fst ?st)))"
    using peer_leave_clears_speaker [of "sample_platform ''u3'' 3" ?st "''C''"] by (rule conjunct2)
  then have "speakerId (roomState (onPeerLeave (fst ?st) ''C'')) = None"
    unfolding before by simp
  with before show ?thesis by (intro conjI)
qed

text \<open>
  C10. A \<^verbatim>\<open>GrantToken\<close> control event without \<^verbatim>\<open>targetPeerId\<close> sets
  \<^verbatim>\<open>speakerId\<close> to null and changes nothing else; it makes no call and throws nothing.
\<close>

theorem grant_without_target_releases:
  assumes "eventType event = CONTROL_SIGNAL"
    and "payload event = Control p"
    and "signal p = GRANT_TOKEN"
    and "targetPeerId p = None"
  shows "handleIncomingEvent P st event sender =
           (((fst st)\<lparr>roomState := (roomState (fst st))\<lparr>speakerId := None\<rparr>\<rparr>, snd st), [], None)"
  using assms by (simp add: handleIncomingEvent_def Let_def or_null_def)

text \<open>
  Host \<open>A\<close> has granted the floor to \<open>C\<close>; a grant without a target arrives.
\<close>

theorem grant_without_target_releases_witness:
  "speakerId (roomState (fst (run_store (store_with_host ''A'' ''A'') (take 2 floor_scenario) ! 1)))
     = Some ''C''
   \<and> speakerId (roomState (fst (fst (handleIncomingEvent (sample_platform ''u5'' 5)
         (run_store (store_with_host ''A'' ''A'') (take 2 floor_scenario) ! 1)
         (control_event ''A'' GRANT_TOKEN None) ''A'')))) = None"
proof -
  let ?st = "run_store (store_with_host ''A'' ''A'') (take 2 floor_scenario) ! 1"
  have before: "speakerId (roomState (fst ?st)) = Some ''C''"
    by (simp add: floor_scenario_def store_with_host_def control_event_def sample_platform_def
        handleIncomingEvent_def onHostChanged_def useAppStore_initial_def
        or_string_def or_null_def Let_def)
  have "handleIncomingEvent (sample_platform ''u5'' 5) ?st (control_event ''A'' GRANT_TOKEN None) ''A''
        = (((fst ?st)\<lparr>roomState := (roomState (fst ?st))\<lparr>speakerId := None\<rparr>\<rparr>, snd ?st), [], None)"
    by (rule grant_without_target_releases
          [of _ "\<lparr>signal = GRANT_TOKEN, targetPeerId = None\<rparr>"])
       (simp_all add: control_event_def)
  then have "speakerId (roomState (fst (fst (handleIncomingEvent (sample_platform ''u5'' 5) ?st
                 (control_event ''A'' GRANT_TOKEN None) ''A'')))) = None"
    by simp
  with before show ?thesis by (intro conjI)
qed

subsection \<open>Wire encoding of audio\<close>



lemma length_buffer_bytes: "length (concat (map float32_bytes ws)) = 4 * length ws"
  by (induction ws) (simp_all add: float32_bytes_def)


lemma Float32Array_of_buffer_bytes:
  "Float32Array_of_buffer (concat (map float32_bytes ws)) = Inr (Float32Array_from ws)"
  by (simp add: Float32Array_of_buffer_def Float32Array_from_def length_buffer_bytes)


lemma fromCharCode_chunks_eq:
  "fromCharCode_chunks bytes i binary = binary @ map String_fromCharCode (drop i bytes)"
proof (induction bytes i binary rule: fromCharCode_chunks.induct)
  case (1 bytes i binary)
  show ?case
  proof (cases "i < length bytes")
    case False
    then show ?thesis by (subst fromCharCode_chunks.simps) simp
  next
    case True
    let ?k = "min (i + chunkSize) (length bytes) - i"
    have split: "take ?k (drop i bytes) @ drop (i + chunkSize) bytes = drop i bytes"
    proof (cases "i + chunkSize \<le> length bytes")
      case True
      then have "?k = chunkSize" by simp
      moreover have "drop (i + chunkSize) bytes = drop chunkSize (drop i bytes)"
        by (simp add: add.commute)
      ultimately show ?thesis by (simp only: append_take_drop_id)
    next
      case False
      then have "?k = length bytes - i" by simp
      then show ?thesis using False by simp
    qed
    have "fromCharCode_chunks bytes i binary =
            fromCharCode_chunks bytes (i + chunkSize)
              (binary @ map String_fromCharCode (take ?k (drop i bytes)))"
      using True by (subst fromCharCode_chunks.simps) (simp add: Let_def)
    also have "\<dots> = (binary @ map String_fromCharCode (take ?k (drop i bytes)))
                 @ map String_fromCharCode (drop (i + chunkSize) bytes)"
      using "1.IH" [OF True refl] by simp
    also have "\<dots> = binary @ map String_fromCharCode (take ?k (drop i bytes) @ drop (i + chunkSize) bytes)"
      by simp
    finally show ?thesis unfolding split .
  qed
qed

lemma charCode_fromCharCode: "charCode (String_fromCharCode b) = unat b"
proof -
  have "unat b < 2 ^ LENGTH(8)" by (rule unsigned_less)
  then have "unat b < 256" by simp
  then show ?thesis by (simp add: charCode_def String_fromCharCode_def)
qed

lemma byte_of_charCode: "word_of_nat (charCode (String_fromCharCode b)) = (b :: 8 word)"
  by (simp add: charCode_fromCharCode)

text \<open>The arithmetic of one group: three bytes, four six-bit values, and back.\<close>

lemma btoa_groups_sextets: "btoa_groups bs = map b64_char (sextets bs) @ padding bs"
  by (induction bs rule: sextets.induct) simp_all

lemma sextet_bound_1: "(a::nat) < 256 \<Longrightarrow> a div 4 < 64"
  by simp

lemma sextet_bound_2: "(b::nat) < 256 \<Longrightarrow> (a mod 4) * 16 + b div 16 < 64"
proof -
  assume "b < 256"
  then have "b div 16 < 16" by simp
  moreover have "a mod 4 < 4" by simp
  ultimately show ?thesis by linarith
qed

lemma sextet_bound_3: "(c::nat) < 256 \<Longrightarrow> (b mod 16) * 4 + c div 64 < 64"
proof -
  assume "c < 256"
  then have "c div 64 < 4" by simp
  moreover have "b mod 16 < 16" by simp
  ultimately show ?thesis by linarith
qed

lemma octet_first: "(b::nat) < 256 \<Longrightarrow> a div 4 * 4 + ((a mod 4) * 16 + b div 16) div 16 = a"
proof -
  assume "b < 256"
  then have "b div 16 < 16" by simp
  then have "((a mod 4) * 16 + b div 16) div 16 = a mod 4" by simp
  then show ?thesis by simp
qed

lemma octet_second: "(b::nat) < 256 \<Longrightarrow> c < 256 \<Longrightarrow>
   (((a mod 4) * 16 + b div 16) mod 16) * 16 + ((b mod 16) * 4 + c div 64) div 4 = b"
proof -
  assume "b < 256" "c < 256"
  then have "b div 16 < 16" "c div 64 < 4" by simp_all
  then have "((a mod 4) * 16 + b div 16) mod 16 = b div 16"
    "((b mod 16) * 4 + c div 64) div 4 = b mod 16" by simp_all
  then show ?thesis by simp
qed

lemma octet_third: "(c::nat) < 256 \<Longrightarrow> (((b mod 16) * 4 + c div 64) mod 4) * 64 + c mod 64 = c"
proof -
  assume "c < 256"
  then have "c div 64 < 4" by simp
  then have "((b mod 16) * 4 + c div 64) mod 4 = c div 64" by simp
  then show ?thesis by simp
qed

lemma octet_second_short:
  "(b::nat) < 256 \<Longrightarrow>
     (((a mod 4) * 16 + b div 16) mod 16) * 16 + ((b mod 16) * 4) div 4 = b"
proof -
  assume "b < 256"
  then have "b div 16 < 16" by simp
  then have "((a mod 4) * 16 + b div 16) mod 16 = b div 16" by simp
  then show ?thesis by simp
qed

lemma octet_first_short: "(a::nat) div 4 * 4 + ((a mod 4) * 16) div 16 = a"
  by simp

lemma sextets_bound: "\<forall>x \<in> set bs. x < 256 \<Longrightarrow> \<forall>s \<in> set (sextets bs). s < 64"
proof (induction bs rule: sextets.induct)
  case 1
  show ?case by simp
next
  case (2 a)
  then have "a < 256" by simp
  then show ?case by simp
next
  case (3 a b)
  then have "a < 256" "b < 256" by simp_all
  then show ?case using sextet_bound_2 [of b a] by simp
next
  case (4 a b c rest)
  then have "a < 256" "b < 256" "c < 256" by simp_all
  moreover have "\<forall>s \<in> set (sextets rest). s < 64" using 4 by simp
  ultimately show ?case using sextet_bound_2 [of b a] sextet_bound_3 [of c b] by simp
qed

lemma atob_groups_sextets: "\<forall>x \<in> set bs. x < 256 \<Longrightarrow> atob_groups (sextets bs) = bs"
proof (induction bs rule: sextets.induct)
  case 1
  show ?case by simp
next
  case (2 a)
  show ?case by (simp add: octet_first_short)
next
  case (3 a b)
  then have "b < 256" by simp
  then show ?case by (simp add: octet_first octet_second_short)
next
  case (4 a b c rest)
  then have "b < 256" "c < 256" by simp_all
  moreover have "atob_groups (sextets rest) = rest" using 4 by simp
  ultimately show ?case by (simp add: octet_first octet_second octet_third)
qed

lemma length_encoded:
  "length (sextets bs) mod 4 \<noteq> 1 \<and> (length (sextets bs) + length (padding bs)) mod 4 = 0"
  by (induction bs rule: sextets.induct) simp_all

lemma index_of_nth: "distinct xs \<Longrightarrow> i < length xs \<Longrightarrow> index_of (xs ! i) xs = Some i"
proof (induction xs arbitrary: i)
  case Nil
  then show ?case by simp
next
  case (Cons x xs)
  show ?case
  proof (cases i)
    case 0
    then show ?thesis by simp
  next
    case (Suc j)
    then have "xs ! j \<in> set xs" using Cons.prems by simp
    then have "xs ! j \<noteq> x" using Cons.prems by auto
    then show ?thesis using Suc Cons by auto
  qed
qed

lemma b64_alphabet_length: "length b64_alphabet = 64"
  by (simp add: b64_alphabet_def)

lemma b64_alphabet_distinct: "distinct b64_alphabet"
  by (simp add: b64_alphabet_def)

lemma b64_index_char: "s < 64 \<Longrightarrow> b64_index (b64_char s) = Some s"
  unfolding b64_index_def b64_char_def
  by (rule index_of_nth [OF b64_alphabet_distinct]) (simp add: b64_alphabet_length)

lemma b64_char_mem: "s < 64 \<Longrightarrow> b64_char s \<in> set b64_alphabet"
  unfolding b64_char_def by (rule nth_mem) (simp add: b64_alphabet_length)

lemma b64_alphabet_no_pad: "c \<in> set b64_alphabet \<Longrightarrow> c \<noteq> CHR ''=''"
  by (auto simp: b64_alphabet_def)

lemma b64_alphabet_no_space: "c \<in> set b64_alphabet \<Longrightarrow> \<not> ascii_whitespace c"
  by (auto simp: b64_alphabet_def ascii_whitespace_def charCode_def)

lemma those_b64_index:
  "\<forall>s \<in> set ss. s < 64 \<Longrightarrow> those (map b64_index (map b64_char ss)) = Some ss"
  by (induction ss) (simp_all add: b64_index_char)

lemma padding_cases: "padding bs \<in> {[], [CHR ''=''], [CHR ''='', CHR ''='']}"
  by (induction bs rule: sextets.induct) simp_all

lemma strip_padding_encoded:
  assumes xs: "\<forall>c \<in> set xs. c \<noteq> CHR ''=''"
    and len: "length (xs @ pad) mod 4 = 0"
    and pad: "pad \<in> {[], [CHR ''=''], [CHR ''='', CHR ''='']}"
  shows "strip_padding (xs @ pad) = xs"
proof -
  have last: "rev xs = c # r \<Longrightarrow> c \<noteq> CHR ''=''" for c r
  proof -
    assume "rev xs = c # r"
    then have "c \<in> set (rev xs)" by simp
    then show ?thesis using xs by simp
  qed
  have rebuild: "rev xs = c # r \<Longrightarrow> rev r @ [c] = xs" for c r
    by (metis rev.simps(2) rev_rev_ident)
  from pad consider "pad = []" | "pad = [CHR ''='']" | "pad = [CHR ''='', CHR ''='']"
    by blast
  then show ?thesis
  proof cases
    case 1
    then show ?thesis using len last
      by (cases "rev xs") (auto simp: strip_padding_def split: list.splits)
  next
    case 2
    then show ?thesis using len last rebuild
      by (cases "rev xs") (auto simp: strip_padding_def split: list.splits)
  next
    case 3
    then show ?thesis using len by (simp add: strip_padding_def)
  qed
qed

lemma atob_btoa_groups:
  assumes "\<forall>x \<in> set bs. x < 256"
  shows "atob (btoa_groups bs) = Inr (map char_of bs)"
proof -
  let ?xs = "map b64_char (sextets bs)"
  have six: "\<forall>s \<in> set (sextets bs). s < 64" by (rule sextets_bound [OF assms])
  then have alpha: "\<forall>c \<in> set ?xs. c \<in> set b64_alphabet" by (simp add: b64_char_mem)
  have nopad: "\<forall>c \<in> set ?xs. c \<noteq> CHR ''=''"
    using alpha b64_alphabet_no_pad by blast
  have nospace: "\<forall>c \<in> set ?xs. \<not> ascii_whitespace c"
    using alpha b64_alphabet_no_space by blast
  have padspace: "\<forall>c \<in> set (padding bs). \<not> ascii_whitespace c"
    using padding_cases [of bs] by (auto simp: ascii_whitespace_def charCode_def)
  have filt: "filter (\<lambda>c. \<not> ascii_whitespace c) (btoa_groups bs) = ?xs @ padding bs"
    unfolding btoa_groups_sextets using nospace padspace by simp
  have len: "length (?xs @ padding bs) mod 4 = 0" using length_encoded [of bs] by simp
  have strip: "strip_padding (?xs @ padding bs) = ?xs"
    by (rule strip_padding_encoded [OF nopad len padding_cases])
  have len1: "length ?xs mod 4 \<noteq> 1" using length_encoded [of bs] by simp
  show ?thesis
    unfolding atob_def filt strip Let_def
    using len1 those_b64_index [OF six] atob_groups_sextets [OF assms] by simp
qed

lemma atob_btoa: "atob (btoa binary) = Inr binary"
proof -
  have "\<forall>x \<in> set (map charCode binary). x < 256"
    by (simp add: charCode_def)
  from atob_btoa_groups [OF this] show ?thesis
    by (simp add: btoa_def charCode_def comp_def)
qed

text \<open>
  Whatever the view, decoding what \<^verbatim>\<open>float32ToBase64\<close> encodes gives a view on a
  copy of the whole buffer.
\<close>

lemma base64ToFloat32_float32ToBase64:
  "base64ToFloat32 (float32ToBase64 fa) = Float32Array_of_buffer (arrayBuffer fa)"
proof -
  let ?bytes = "arrayBuffer fa"
  have bin: "fromCharCode_chunks ?bytes 0 [] = map String_fromCharCode ?bytes"
    by (simp only: fromCharCode_chunks_eq drop_0 append_Nil)
  have bytes_back: "map (\<lambda>c. word_of_nat (charCode c)) (map String_fromCharCode ?bytes) = ?bytes"
    by (simp add: comp_def byte_of_charCode)
  show ?thesis
    unfolding float32ToBase64_def base64ToFloat32_def Let_def bin atob_btoa
    by (simp only: sum.case bytes_back)
qed

text \<open>The samples 1.0 and -0.5 on the wire.\<close>

lemma float32ToBase64_example:
  "float32ToBase64 (Float32Array_from [0x3F800000, 0xBF000000]) = ''AACAPwAAAL8=''"
  by (simp add: float32ToBase64_def Float32Array_from_def float32_bytes_def
      fromCharCode_chunks_eq String_fromCharCode_def btoa_def charCode_def b64_char_def
      b64_alphabet_def drop_bit_eq_div)

text \<open>
  Every sample sequence, held in an array of its own, comes back from the wire bit for
  bit.
\<close>

lemma sample_sequence_roundtrip:
  "base64ToFloat32 (float32ToBase64 (Float32Array_from ws)) = Inr (Float32Array_from ws)"
proof -
  have "arrayBuffer (Float32Array_from ws) = concat (map float32_bytes ws)"
    by (simp add: Float32Array_from_def)
  then show ?thesis
    by (simp only: base64ToFloat32_float32ToBase64 Float32Array_of_buffer_bytes)
qed




subsection \<open>Playback scheduling\<close>

lemma ensureContexts_fields:
  "nextStartTime (ensureContexts s) = nextStartTime s"
  "jitterLatency (ensureContexts s) = jitterLatency s"
  "outputContext (ensureContexts s)"
  by (simp_all add: ensureContexts_def Let_def)

lemma playAudioQueue_latency:
  "jitterLatency (fst (playAudioQueue ok t s audioData rate)) = jitterLatency s"
  by (simp add: playAudioQueue_def Let_def ensureContexts_fields)

lemma playAudioQueue_not_started:
  assumes "0 \<le> jitterLatency s"
    and "playAudioQueue ok t s audioData rate = (s', r)"
    and "\<forall>st d. r \<noteq> Inr (Started st d)"
  shows "nextStartTime s \<le> nextStartTime s'"
  using assms
  by (auto simp: playAudioQueue_def Let_def ensureContexts_fields split: if_splits)

lemma playAudioQueue_started:
  assumes "0 \<le> jitterLatency s"
    and "playAudioQueue ok t s audioData rate = (s', Inr (Started st d))"
  shows "nextStartTime s \<le> st \<and> nextStartTime s' = st + d
         \<and> (nextStartTime s < t \<longrightarrow> st = t + jitterLatency s)
         \<and> (\<not> nextStartTime s < t \<longrightarrow> st = nextStartTime s)"
  using assms
  by (auto simp: playAudioQueue_def Let_def ensureContexts_fields split: if_splits)

lemma starts_from_mono: "t' \<le> t \<Longrightarrow> starts_from t fs \<Longrightarrow> starts_from t' fs"
  by (cases fs) (simp_all add: starts_from_def)

lemma back_to_back_Cons:
  "back_to_back (f # fs) = (starts_from (start f + frameDuration f) fs \<and> back_to_back fs)"
  by (cases fs) (simp_all add: starts_from_def)

lemma run_audio_schedule:
  "0 \<le> jitterLatency s \<Longrightarrow>
     back_to_back (run_audio ok s cs) \<and> starts_from (nextStartTime s) (run_audio ok s cs)
     \<and> (\<forall>f \<in> set (run_audio ok s cs). underrun f \<longrightarrow> now f + latency f \<le> start f)"
proof (induction cs arbitrary: s)
  case Nil
  show ?case by (simp add: starts_from_def)
next
  case (Cons c cs)
  show ?case
  proof (cases c)
    case (SetJitterLatency seconds)
    have "0 \<le> jitterLatency (setJitterLatency s seconds)"
      by (simp add: setJitterLatency_def)
    from Cons.IH [OF this] show ?thesis
      using SetJitterLatency by (simp add: setJitterLatency_def)
  next
    case (PlayAudioQueue audioData rate t)
    obtain s' r where p: "playAudioQueue ok t s audioData rate = (s', r)"
      by (cases "playAudioQueue ok t s audioData rate")
    have lat: "0 \<le> jitterLatency s'"
      using playAudioQueue_latency [of ok t s audioData rate] p Cons.prems by simp
    note ih = Cons.IH [OF lat]
    show ?thesis
    proof (cases "\<exists>st d. r = Inr (Started st d)")
      case True
      then obtain st d where r: "r = Inr (Started st d)" by blast
      from playAudioQueue_started [OF Cons.prems p [unfolded r]]
      have st: "nextStartTime s \<le> st" "nextStartTime s' = st + d"
        "nextStartTime s < t \<longrightarrow> st = t + jitterLatency s" by blast+
      have run: "run_audio ok s (c # cs) =
          \<lparr>start = st, frameDuration = d, now = t, latency = jitterLatency s,
            underrun = (nextStartTime s < t)\<rparr> # run_audio ok s' cs"
        using PlayAudioQueue p r by simp
      show ?thesis
        unfolding run back_to_back_Cons using ih st by (simp add: starts_from_def)
    next
      case False
      then have nr: "\<forall>st d. r \<noteq> Inr (Started st d)" by blast
      have run: "run_audio ok s (c # cs) = run_audio ok s' cs"
        using PlayAudioQueue p nr
        by (cases r) (auto split: playback.splits)
      have "nextStartTime s \<le> nextStartTime s'"
        by (rule playAudioQueue_not_started [OF Cons.prems p nr])
      then show ?thesis
        unfolding run using ih starts_from_mono by blast
    qed
  qed
qed

text \<open>
  C7. For every history of calls on a fresh \<^verbatim>\<open>AudioService\<close> (frames submitted with
  \<^verbatim>\<open>playAudioQueue\<close> at any clock readings, \<^verbatim>\<open>setJitterLatency\<close> in between) every
  started frame starts no earlier than the start of the frame started before it plus that
  frame's duration, and a frame submitted when the cursor was behind the clock starts no
  earlier than the clock reading plus the jitter latency.
\<close>

theorem playAudioQueue_monotone:
  "back_to_back (run_audio ok AudioService_new cs) \<and>
   (\<forall>f \<in> set (run_audio ok AudioService_new cs). underrun f \<longrightarrow> now f + latency f \<le> start f)"
proof -
  have "0 \<le> jitterLatency AudioService_new" by (simp add: AudioService_new_def)
  from run_audio_schedule [OF this] show ?thesis by blast
qed

text \<open>
  The playback scenario: the second frame starts where the first ends, the empty frame is
  not started, and the last frame, submitted at time 5 with the cursor at 2.3, starts at
  5 plus the latency set before it.
\<close>

theorem playAudioQueue_monotone_witness:
  "run_audio (\<lambda>n r. 0 < n \<and> 0 < r) AudioService_new playback_scenario
   = [\<lparr>start = 21 / 20, frameDuration = 1, now = 1, latency = 1 / 20, underrun = True\<rparr>,
      \<lparr>start = 41 / 20, frameDuration = 1 / 4, now = 3 / 2, latency = 1 / 20, underrun = False\<rparr>,
      \<lparr>start = 51 / 10, frameDuration = 3, now = 5, latency = 1 / 10, underrun = True\<rparr>]
   \<and> back_to_back (run_audio (\<lambda>n r. 0 < n \<and> 0 < r) AudioService_new playback_scenario)
   \<and> underrun (run_audio (\<lambda>n r. 0 < n \<and> 0 < r) AudioService_new playback_scenario ! 2)
   \<and> now (run_audio (\<lambda>n r. 0 < n \<and> 0 < r) AudioService_new playback_scenario ! 2)
       + latency (run_audio (\<lambda>n r. 0 < n \<and> 0 < r) AudioService_new playback_scenario ! 2)
     \<le> start (run_audio (\<lambda>n r. 0 < n \<and> 0 < r) AudioService_new playback_scenario ! 2)"
proof -
  let ?run = "run_audio (\<lambda>n r. 0 < n \<and> 0 < r) AudioService_new playback_scenario"
  let ?frames = "[\<lparr>start = 21 / 20, frameDuration = 1, now = 1, latency = 1 / 20, underrun = True\<rparr>,
      \<lparr>start = 41 / 20, frameDuration = 1 / 4, now = 3 / 2, latency = 1 / 20, underrun = False\<rparr>,
      \<lparr>start = 51 / 10, frameDuration = 3, now = 5, latency = 1 / 10, underrun = True\<rparr>]"
  have run: "?run = ?frames"
    by (simp add: playback_scenario_def playAudioQueue_def AudioService_new_def ensureContexts_def
        setJitterLatency_def Let_def)
  have mem: "?frames ! 2 \<in> set ?frames" by simp
  have under: "underrun (?frames ! 2)" by simp
  have "back_to_back ?run
      \<and> (\<forall>f \<in> set ?run. underrun f \<longrightarrow> now f + latency f \<le> start f)"
    by (rule playAudioQueue_monotone)
  then have all: "back_to_back ?frames
      \<and> (\<forall>f \<in> set ?frames. underrun f \<longrightarrow> now f + latency f \<le> start f)"
    unfolding run .
  then have "underrun (?frames ! 2)
      \<longrightarrow> now (?frames ! 2) + latency (?frames ! 2) \<le> start (?frames ! 2)"
    using mem by blast
  then have "now (?frames ! 2) + latency (?frames ! 2) \<le> start (?frames ! 2)"
    using under by blast
  then show ?thesis unfolding run using all under by blast
qed

subsection \<open>Resampling\<close>

lemma round_third_bound:
  assumes "i < nat (Math_round (real n / 3))"
  shows "3 * i < n"
proof -
  have "int i < \<lfloor>real n / 3 + 1 / 2\<rfloor>" using assms by (simp add: Math_round_def)
  then have "real i + 1 \<le> real n / 3 + 1 / 2" by linarith
  then have "3 * real i < real n" by simp
  then show ?thesis by linarith
qed

lemma interpolate_constant:
  assumes "3 * i < n"
  shows "interpolate (replicate n c) 3 i = c"
proof -
  have eq: "real i * 3 = of_int (int (3 * i))" by simp
  have fl: "\<lfloor>real i * 3\<rfloor> = int (3 * i)" unfolding eq by (rule floor_of_int)
  have ce: "\<lceil>real i * 3\<rceil> = int (3 * i)" unfolding eq by (rule ceiling_of_int)
  have v: "sample_or (replicate n c) (int (3 * i)) d = (if c = 0 then d else c)" for d
  proof -
    have "nat (int (3 * i)) = 3 * i" by (rule nat_int)
    then show ?thesis using assms by (simp add: sample_or_def del: of_nat_mult)
  qed
  show ?thesis
    unfolding interpolate_def Let_def fl ce v by simp
qed

text \<open>
  C8. Downsampling a buffer of \<open>n\<close> samples that all equal \<open>c\<close> from 48000 Hz to
  16000 Hz returns a buffer, of \<^verbatim>\<open>Math.round(n / 3)\<close> samples, that all equal \<open>c\<close>.
\<close>

theorem downsampleBuffer_constant:
  "downsampleBuffer (replicate n c) 48000 16000
     = Inr (replicate (nat (Math_round (real n / 3))) c)"
proof -
  have len: "0 \<le> Math_round (real n / 3)" by (simp add: Math_round_def)
  have "map (interpolate (replicate n c) 3) [0..<nat (Math_round (real n / 3))]
        = replicate (nat (Math_round (real n / 3))) c"
    by (rule nth_equalityI) (simp_all add: interpolate_constant round_third_bound)
  then show ?thesis using len by (simp add: downsampleBuffer_def Let_def)
qed

text \<open>
  C9. A call of \<^verbatim>\<open>downsampleBuffer\<close> whose target rate is strictly greater than the
  source rate raises the upsampling error, whatever the buffer; no buffer is returned.
\<close>

theorem downsampleBuffer_upsampling_fails:
  "targetRate > sourceRate \<Longrightarrow>
     downsampleBuffer buffer sourceRate targetRate = Inl UpsamplingNotSupported"
  by (simp add: downsampleBuffer_def)

theorem downsampleBuffer_upsampling_fails_witness:
  "(48000::real) > 16000 \<and> downsampleBuffer [0.5, 0.25] 16000 48000 = Inl UpsamplingNotSupported"
  using downsampleBuffer_upsampling_fails [of 16000 48000 "[0.5, 0.25]"] by simp

end
